theory Spec2Isabelle
  imports Complex_Main
begin

section \<open>The bouncing-ball animation of \<open>script.js\<close>\<close>

text \<open>
  The development embeds the second (current) version of \<open>script.js\<close>, lines 204 to 450:
  the classes \<open>Ball\<close>, \<open>MovingBall\<close> and \<open>Game\<close>.

  JavaScript numbers are modelled as mathematical reals; infinities and \<open>NaN\<close> are not
  represented. \<open>Math.max\<close> and \<open>Math.min\<close> are \<open>max\<close> and \<open>min\<close> on the reals.
  The methods are first written with exact sums and differences. The boundary tests of
  \<open>update\<close> depend on the rounding of IEEE doubles, so \<open>update\<close> is written a second
  time with every sum and difference rounded, and the rounding of binary64 is defined.
\<close>

subsection \<open>The canvas and the random source\<close>

text \<open>
  Of the canvas element the classes read only \<open>clientWidth\<close> and \<open>clientHeight\<close>
  (the size in CSS pixels). Every ball holds a reference to the one canvas of the game, so
  the methods below take the canvas as an argument.
\<close>

record htmlCanvas =
  clientWidth :: real
  clientHeight :: real

text \<open>
  \<open>Math.random()\<close> is a sequence of numbers fixed in advance and a count of the draws
  made so far: a call returns the next number and advances the count.
\<close>

definition Math_random :: "(nat \<Rightarrow> real) \<Rightarrow> nat \<Rightarrow> real \<times> nat" where
  "Math_random rnd n = (rnd n, Suc n)"

subsection \<open>Class \<open>Ball\<close>\<close>

text \<open>
  The fields of a ball. The colour string \<open>hsl(h, 80%, 60%)\<close> is kept as its hue \<open>h\<close>.
  The constructor also stores the canvas, its 2d context and a flag \<open>isGameOver = false\<close>
  on every ball; no method of the file reads that flag, and the record leaves the three out.
\<close>

record ball =
  x :: real
  y :: real
  radius :: real
  speedX :: real
  speedY :: real
  hue :: real

text \<open>
  \<open>new Ball(canvas, x = null, y = null)\<close>, lines 205 to 222. \<open>None\<close> is \<open>null\<close>.
  A coordinate that is given costs no random draw.
\<close>

definition new_Ball ::
  "htmlCanvas \<Rightarrow> real option \<Rightarrow> real option \<Rightarrow> (nat \<Rightarrow> real) \<Rightarrow> nat \<Rightarrow> ball \<times> nat" where
  "new_Ball c xo yo rnd n =
    (let (u0, n0) = Math_random rnd n;
         r = u0 * 15 + 10;
         cw = clientWidth c;
         ch = clientHeight c;
         (x0, n1) = (case xo of
                       Some v \<Rightarrow> (v, n0)
                     | None \<Rightarrow> (let (u, k) = Math_random rnd n0 in (u * (cw - r * 2) + r, k)));
         (y0, n2) = (case yo of
                       Some v \<Rightarrow> (v, n1)
                     | None \<Rightarrow> (let (u, k) = Math_random rnd n1 in (u * (ch - r * 2) + r, k)));
         (u3, n3) = Math_random rnd n2;
         (u4, n4) = Math_random rnd n3;
         sx = (u3 * 2 + 1) * (if u4 < 0.5 then - 1 else 1);
         (u5, n5) = Math_random rnd n4;
         (u6, n6) = Math_random rnd n5;
         sy = (u5 * 2 + 1) * (if u6 < 0.5 then - 1 else 1);
         (u7, n7) = Math_random rnd n6
     in (\<lparr>x = x0, y = y0, radius = r, speedX = sx, speedY = sy, hue = u7 * 360\<rparr>, n7))"

text \<open>
  \<open>Ball.update()\<close>, lines 234 to 256. The method is inherited by \<open>MovingBall\<close>, so it is
  defined on every extension of the record. Sums and differences are exact here; the form
  with rounding is \<open>Ball_update_rounded\<close> below.
\<close>

definition Ball_update :: "htmlCanvas \<Rightarrow> 'a ball_scheme \<Rightarrow> 'a ball_scheme" where
  "Ball_update c b =
    (let b1 = b\<lparr>x := x b + speedX b\<rparr>;
         b2 = b1\<lparr>y := y b1 + speedY b1\<rparr>;
         cw = clientWidth c;
         ch = clientHeight c;
         b3 = (if x b2 + radius b2 > cw
                 then b2\<lparr>x := cw - radius b2, speedX := speedX b2 * - 1\<rparr>
               else if x b2 - radius b2 < 0
                 then b2\<lparr>x := radius b2, speedX := speedX b2 * - 1\<rparr>
               else b2)
     in (if y b3 + radius b3 > ch
           then b3\<lparr>y := ch - radius b3, speedY := speedY b3 * - 1\<rparr>
         else if y b3 - radius b3 < 0
           then b3\<lparr>y := radius b3, speedY := speedY b3 * - 1\<rparr>
         else b3))"

text \<open>\<open>Ball.clampToBounds()\<close>, lines 258 to 264; inherited as well.\<close>

definition Ball_clampToBounds :: "htmlCanvas \<Rightarrow> 'a ball_scheme \<Rightarrow> 'a ball_scheme" where
  "Ball_clampToBounds c b =
    (let cw = clientWidth c;
         ch = clientHeight c;
         b1 = b\<lparr>x := max (radius b) (min (x b) (cw - radius b))\<rparr>
     in b1\<lparr>y := max (radius b1) (min (y b1) (ch - radius b1))\<rparr>)"

subsection \<open>Class \<open>MovingBall\<close>\<close>

record movingBall = ball +
  ax :: real
  ay :: real

text \<open>\<open>new MovingBall(canvas, x = null, y = null)\<close>, lines 268 to 272.\<close>

definition new_MovingBall ::
  "htmlCanvas \<Rightarrow> real option \<Rightarrow> real option \<Rightarrow> (nat \<Rightarrow> real) \<Rightarrow> nat \<Rightarrow> movingBall \<times> nat" where
  "new_MovingBall c xo yo rnd n =
    (let (b, n1) = new_Ball c xo yo rnd n;
         (u1, n2) = Math_random rnd n1;
         (u2, n3) = Math_random rnd n2
     in (\<lparr>x = x b, y = y b, radius = radius b, speedX = speedX b, speedY = speedY b,
          hue = hue b, ax = (u1 - 0.5) * 0.02, ay = (u2 - 0.5) * 0.02\<rparr>, n3))"

text \<open>\<open>MovingBall.update()\<close>, lines 274 to 278.\<close>

definition MovingBall_update :: "htmlCanvas \<Rightarrow> movingBall \<Rightarrow> movingBall" where
  "MovingBall_update c b =
    (let b1 = b\<lparr>speedX := speedX b + ax b\<rparr>;
         b2 = b1\<lparr>speedY := speedY b1 + ay b1\<rparr>
     in Ball_update c b2)"

subsection \<open>The elements of \<open>Game.balls\<close>\<close>

text \<open>
  The array holds objects of either class; a method call on an element dispatches on
  the class.
\<close>

datatype entity = Ball ball | MovingBall movingBall

fun update :: "htmlCanvas \<Rightarrow> entity \<Rightarrow> entity" where
  "update c (Ball b) = Ball (Ball_update c b)"
| "update c (MovingBall m) = MovingBall (MovingBall_update c m)"

fun clampToBounds :: "htmlCanvas \<Rightarrow> entity \<Rightarrow> entity" where
  "clampToBounds c (Ball b) = Ball (Ball_clampToBounds c b)"
| "clampToBounds c (MovingBall m) = MovingBall (Ball_clampToBounds c m)"

fun pos_x :: "entity \<Rightarrow> real" where
  "pos_x (Ball b) = x b"
| "pos_x (MovingBall m) = x m"

fun pos_y :: "entity \<Rightarrow> real" where
  "pos_y (Ball b) = y b"
| "pos_y (MovingBall m) = y m"

fun radius_of :: "entity \<Rightarrow> real" where
  "radius_of (Ball b) = radius b"
| "radius_of (MovingBall m) = radius m"

fun vel_x :: "entity \<Rightarrow> real" where
  "vel_x (Ball b) = speedX b"
| "vel_x (MovingBall m) = speedX m"

fun vel_y :: "entity \<Rightarrow> real" where
  "vel_y (Ball b) = speedY b"
| "vel_y (MovingBall m) = speedY m"

fun hue_of :: "entity \<Rightarrow> real" where
  "hue_of (Ball b) = hue b"
| "hue_of (MovingBall m) = hue m"

text \<open>The acceleration of an element: present on a \<open>MovingBall\<close> only.\<close>

fun accel :: "entity \<Rightarrow> (real \<times> real) option" where
  "accel (Ball b) = None"
| "accel (MovingBall m) = Some (ax m, ay m)"

subsection \<open>The arithmetic of doubles\<close>

text \<open>
  A finite double is an integer number of units of \<open>2 ^ -1074\<close> (the least positive
  double) with at most 53 significant bits. \<open>bit_length n\<close> is the number of bits of
  \<open>n\<close>.
\<close>

fun bit_length :: "nat \<Rightarrow> nat" where
  "bit_length n = (if n = 0 then 0 else Suc (bit_length (n div 2)))"

declare bit_length.simps [simp del]

text \<open>The integer nearest to \<open>t\<close>; a tie goes to the even neighbour.\<close>

definition round_half_even :: "real \<Rightarrow> int" where
  "round_half_even t =
    (let n = \<lfloor>t\<rfloor>; d = t - of_int n
     in if d < 1 / 2 then n else if 1 / 2 < d then n + 1 else if even n then n else n + 1)"

text \<open>
  A quantity \<open>t\<close> measured in units, rounded to 53 significant bits: with \<open>j\<close> the bit
  length of its integer part, the spacing of the doubles around it is \<open>2 ^ (j - 53)\<close>
  units, and one unit when \<open>j\<close> is below 53 (the subnormal doubles and the first binade
  of the normal ones).
\<close>

definition round_units :: "real \<Rightarrow> int" where
  "round_units t =
    (let k = bit_length (nat \<lfloor>\<bar>t\<bar>\<rfloor>) - 53
     in round_half_even (t / 2 ^ k) * 2 ^ k)"

text \<open>The number of units in 1.\<close>

definition units :: real where
  "units = 2 ^ 1074"

text \<open>
  IEEE 754 binary64 rounding to nearest, ties to even, of a real number. A result beyond
  the largest double is left as a real number and not replaced by Infinity. A double
  is a value that the rounding leaves as it is, below \<open>2 ^ 1024\<close> in magnitude.
\<close>

definition binary64 :: "real \<Rightarrow> real" where
  "binary64 v = of_int (round_units (v * units)) / units"

definition is_double :: "real \<Rightarrow> bool" where
  "is_double v = (binary64 v = v \<and> \<bar>v\<bar> < 2 ^ 1024)"

text \<open>
  \<open>Ball.update()\<close>, lines 234 to 256, with the result of every \<open>+\<close> and \<open>-\<close> rounded
  by \<open>rd\<close>. Multiplying by \<open>-1\<close> only changes the sign and is exact.
\<close>

definition Ball_update_rounded ::
  "(real \<Rightarrow> real) \<Rightarrow> htmlCanvas \<Rightarrow> 'a ball_scheme \<Rightarrow> 'a ball_scheme" where
  "Ball_update_rounded rd c b =
    (let b1 = b\<lparr>x := rd (x b + speedX b)\<rparr>;
         b2 = b1\<lparr>y := rd (y b1 + speedY b1)\<rparr>;
         cw = clientWidth c;
         ch = clientHeight c;
         b3 = (if rd (x b2 + radius b2) > cw
                 then b2\<lparr>x := rd (cw - radius b2), speedX := speedX b2 * - 1\<rparr>
               else if rd (x b2 - radius b2) < 0
                 then b2\<lparr>x := radius b2, speedX := speedX b2 * - 1\<rparr>
               else b2)
     in (if rd (y b3 + radius b3) > ch
           then b3\<lparr>y := rd (ch - radius b3), speedY := speedY b3 * - 1\<rparr>
         else if rd (y b3 - radius b3) < 0
           then b3\<lparr>y := radius b3, speedY := speedY b3 * - 1\<rparr>
         else b3))"

text \<open>\<open>MovingBall.update()\<close>, lines 274 to 278, with rounding.\<close>

definition MovingBall_update_rounded ::
  "(real \<Rightarrow> real) \<Rightarrow> htmlCanvas \<Rightarrow> movingBall \<Rightarrow> movingBall" where
  "MovingBall_update_rounded rd c b =
    (let b1 = b\<lparr>speedX := rd (speedX b + ax b)\<rparr>;
         b2 = b1\<lparr>speedY := rd (speedY b1 + ay b1)\<rparr>
     in Ball_update_rounded rd c b2)"

text \<open>The dispatch of \<open>update()\<close> on an element of the array, with rounding.\<close>

fun update_rounded :: "(real \<Rightarrow> real) \<Rightarrow> htmlCanvas \<Rightarrow> entity \<Rightarrow> entity" where
  "update_rounded rd c (Ball b) = Ball (Ball_update_rounded rd c b)"
| "update_rounded rd c (MovingBall m) = MovingBall (MovingBall_update_rounded rd c m)"

subsection \<open>Calls made on the drawing surface\<close>

text \<open>
  One frame is observed as the sequence of the calls it makes: \<open>clearRect\<close> with the
  width and height it is given, \<open>update()\<close> on the element at an index, and \<open>draw()\<close>
  on the element at an index together with the circle it fills (centre, radius, hue).
\<close>

datatype call =
  ClearRect_call real real
| Update_call nat
| Draw_call nat real real real real

text \<open>\<open>Ball.draw()\<close>, lines 224 to 232: it changes no field of the ball.\<close>

definition draw :: "nat \<Rightarrow> entity \<Rightarrow> call" where
  "draw i e = Draw_call i (pos_x e) (pos_y e) (radius_of e) (hue_of e)"

subsection \<open>Class \<open>Game\<close>\<close>

text \<open>
  The state of the game object and of the page elements it holds: the canvas with the
  origin of its bounding rectangle, the array of balls, the flag \<open>isGameOver\<close>, the
  \<open>disabled\<close> attribute of the two buttons, whether the game-over box carries the class
  \<open>hidden\<close>, and the random source. The constructor never assigns \<open>isGameOver\<close>; the
  undefined value is read only through \<open>!this.isGameOver\<close>, where it counts as false.
  The text of the ball counter and the styling of the buttons are not modelled.
\<close>

record game =
  canvas :: htmlCanvas
  rect_left :: real
  rect_top :: real
  balls :: "entity list"
  isGameOver :: bool
  addBtn_disabled :: bool
  clearBtn_disabled :: bool
  gameOverBox_hidden :: bool
  random :: "nat \<Rightarrow> real"
  draws :: nat

text \<open>\<open>disableButtons()\<close> and \<open>enableButtons()\<close>, lines 344 to 362.\<close>

definition disableButtons :: "game \<Rightarrow> game" where
  "disableButtons g = g\<lparr>addBtn_disabled := True, clearBtn_disabled := True\<rparr>"

definition enableButtons :: "game \<Rightarrow> game" where
  "enableButtons g = g\<lparr>addBtn_disabled := False, clearBtn_disabled := False\<rparr>"

text \<open>\<open>checkGameOver()\<close>, lines 333 to 341: the returned flag and the new state.\<close>

definition checkGameOver :: "game \<Rightarrow> bool \<times> game" where
  "checkGameOver g =
    (if length (balls g) \<ge> 100 \<and> \<not> isGameOver g
       then (True, (disableButtons (g\<lparr>isGameOver := True\<rparr>))\<lparr>gameOverBox_hidden := False\<rparr>)
     else (False, g))"

text \<open>\<open>addRandomBall()\<close>, lines 364 to 374.\<close>

definition addRandomBall :: "game \<Rightarrow> game" where
  "addRandomBall g =
    (let (over, g1) = checkGameOver g in
     if over then g1
     else
       (let (u, n1) = Math_random (random g1) (draws g1);
            (b, n2) = (if u < 0.5
                         then (let (p, k) = new_Ball (canvas g1) None None (random g1) n1
                               in (Ball p, k))
                       else (let (m, k) = new_MovingBall (canvas g1) None None (random g1) n1
                             in (MovingBall m, k)));
            b' = clampToBounds (canvas g1) b
        in g1\<lparr>balls := balls g1 @ [b'], draws := n2\<rparr>))"

text \<open>
  \<open>addBallOnClick(e)\<close>, lines 376 to 390; \<open>ex\<close> and \<open>ey\<close> are \<open>e.clientX\<close> and
  \<open>e.clientY\<close>.
\<close>

definition addBallOnClick :: "game \<Rightarrow> real \<Rightarrow> real \<Rightarrow> game" where
  "addBallOnClick g ex ey =
    (let (over, g1) = checkGameOver g in
     if over then g1
     else
       (let px = ex - rect_left g1;
            py = ey - rect_top g1;
            (u, n1) = Math_random (random g1) (draws g1);
            (b, n2) = (if u < 0.5
                         then (let (p, k) = new_Ball (canvas g1) (Some px) (Some py) (random g1) n1
                               in (Ball p, k))
                       else (let (m, k) =
                                   new_MovingBall (canvas g1) (Some px) (Some py) (random g1) n1
                             in (MovingBall m, k)));
            b' = clampToBounds (canvas g1) b
        in g1\<lparr>balls := balls g1 @ [b'], draws := n2\<rparr>))"

text \<open>\<open>addBallOnTouch(touch)\<close>, lines 392 to 404.\<close>

definition addBallOnTouch :: "game \<Rightarrow> real \<Rightarrow> real \<Rightarrow> game" where
  "addBallOnTouch g tx ty =
    (let (over, g1) = checkGameOver g in
     if over then g1
     else
       (let px = tx - rect_left g1;
            py = ty - rect_top g1;
            (m, n1) = new_MovingBall (canvas g1) (Some px) (Some py) (random g1) (draws g1);
            b' = clampToBounds (canvas g1) (MovingBall m)
        in g1\<lparr>balls := balls g1 @ [b'], draws := n1\<rparr>))"

text \<open>\<open>clearBalls()\<close>, lines 406 to 411.\<close>

definition clearBalls :: "game \<Rightarrow> game" where
  "clearBalls g = (if clearBtn_disabled g then g else g\<lparr>balls := []\<rparr>)"

text \<open>\<open>restartGame()\<close>, lines 413 to 424; the loop calls \<open>addRandomBall\<close> 20 times.\<close>

definition restartGame :: "game \<Rightarrow> game" where
  "restartGame g =
    (let g1 = g\<lparr>isGameOver := False\<rparr>;
         g2 = g1\<lparr>balls := []\<rparr>;
         g3 = enableButtons g2;
         g4 = g3\<lparr>gameOverBox_hidden := True\<rparr>;
         g5 = g4\<lparr>isGameOver := False\<rparr>
     in (addRandomBall ^^ 20) g5)"

text \<open>
  \<open>loop\<close>, lines 435 to 447: one frame. \<open>loop_from\<close> is the \<open>for\<close> loop from index \<open>i\<close>
  on, over the elements that remain; it returns the elements as the frame leaves them and
  the calls made. Scheduling the next frame is left to the host.
\<close>

fun loop_from :: "htmlCanvas \<Rightarrow> bool \<Rightarrow> nat \<Rightarrow> entity list \<Rightarrow> entity list \<times> call list" where
  "loop_from c over i [] = ([], [])"
| "loop_from c over i (b # bs) =
    (let (b', us) = (if \<not> over then (update c b, [Update_call i]) else (b, []));
         d = draw i b';
         (bs', cs) = loop_from c over (Suc i) bs
     in (b' # bs', us @ [d] @ cs))"

definition loop :: "game \<Rightarrow> game \<times> call list" where
  "loop g =
    (let (bs, cs) = loop_from (canvas g) (isGameOver g) 0 (balls g)
     in (g\<lparr>balls := bs\<rparr>,
         ClearRect_call (clientWidth (canvas g)) (clientHeight (canvas g)) # cs))"

text \<open>
  The constructor, lines 282 to 319: an empty array, 20 random balls, the first frame.
  The page supplies the canvas, its rectangle and the initial attributes of the elements,
  the host the random source.
\<close>

definition new_Game ::
  "htmlCanvas \<Rightarrow> real \<Rightarrow> real \<Rightarrow> bool \<Rightarrow> bool \<Rightarrow> bool \<Rightarrow> (nat \<Rightarrow> real) \<Rightarrow> game" where
  "new_Game c l t ad cd hid rnd =
    (let g0 = \<lparr>canvas = c, rect_left = l, rect_top = t, balls = [], isGameOver = False,
               addBtn_disabled = ad, clearBtn_disabled = cd, gameOverBox_hidden = hid,
               random = rnd, draws = 0\<rparr>;
         g1 = (addRandomBall ^^ 20) g0
     in fst (loop g1))"

subsection \<open>Sessions\<close>

text \<open>
  What the host delivers to the game, one at a time: a click on each of the three buttons,
  a click on the canvas at client coordinates, a \<open>touchstart\<close> with its list of touches,
  an animation frame, a change of the canvas's CSS size and rectangle, and the expiry of
  the resize timer (lines 296 to 302: every ball is clamped). A handler is run whenever
  its event is delivered; whether the browser delivers a click on a disabled button is
  not the game's business, so every sequence of events is a session.
\<close>

datatype event =
  AddBtn_click
| ClearBtn_click
| RestartBtn_click
| Canvas_click real real
| Canvas_touchstart "(real \<times> real) list"
| Frame
| Layout real real real real
| Resize_timeout

fun step :: "event \<Rightarrow> game \<Rightarrow> game" where
  "step AddBtn_click g = addRandomBall g"
| "step ClearBtn_click g = clearBalls g"
| "step RestartBtn_click g = restartGame g"
| "step (Canvas_click ex ey) g = addBallOnClick g ex ey"
| "step (Canvas_touchstart []) g = g"
| "step (Canvas_touchstart ((tx, ty) # ts)) g = addBallOnTouch g tx ty"
| "step Frame g = fst (loop g)"
| "step (Layout w h l t) g =
     g\<lparr>canvas := \<lparr>clientWidth = w, clientHeight = h\<rparr>, rect_left := l, rect_top := t\<rparr>"
| "step Resize_timeout g = g\<lparr>balls := map (clampToBounds (canvas g)) (balls g)\<rparr>"

text \<open>The state after a sequence of events, the first event first.\<close>

fun run :: "event list \<Rightarrow> game \<Rightarrow> game" where
  "run [] g = g"
| "run (e # es) g = run es (step e g)"

text \<open>The events that ask for a new ball.\<close>

fun is_spawn :: "event \<Rightarrow> bool" where
  "is_spawn AddBtn_click = True"
| "is_spawn (Canvas_click ex ey) = True"
| "is_spawn (Canvas_touchstart (t # ts)) = True"
| "is_spawn e = False"

text \<open>
  The relation between the flag and the number of balls that every session keeps: while
  the flag is unset there are at most 100 balls; once it is set there are at least 100
  and the clear button is disabled.
\<close>

definition session_inv :: "game \<Rightarrow> bool" where
  "session_inv g =
    ((if isGameOver g then 100 \<le> length (balls g) \<and> clearBtn_disabled g
      else length (balls g) \<le> 100))"

subsection \<open>Concrete inputs\<close>

definition canvas_400_300 :: htmlCanvas where
  "canvas_400_300 = \<lparr>clientWidth = 400, clientHeight = 300\<rparr>"

text \<open>A canvas smaller, in both dimensions, than the diameter of \<open>corner_ball\<close>.\<close>

definition canvas_16_12 :: htmlCanvas where
  "canvas_16_12 = \<lparr>clientWidth = 16, clientHeight = 12\<rparr>"

definition corner_ball :: ball where
  "corner_ball = \<lparr>x = 5, y = 5, radius = 10, speedX = - 3, speedY = - 3, hue = 0\<rparr>"

text \<open>
  A ball one step from the right edge of the 400 wide canvas, with fields that are
  doubles: \<open>387 + 2 ^ -44\<close> and \<open>12 - 2 ^ -45\<close>.
\<close>

definition edge_ball :: ball where
  "edge_ball = \<lparr>x = 387 + 1 / 2 ^ 44, y = 100, radius = 12 - 1 / 2 ^ 45,
                 speedX = 1, speedY = 1, hue = 0\<rparr>"

text \<open>A random source that always answers 0, the least value \<open>Math.random()\<close> can return.\<close>

definition zero_rnd :: "nat \<Rightarrow> real" where
  "zero_rnd n = 0"

text \<open>
  A fresh game on the 400 by 300 canvas, and the sessions that press the add button 79,
  80 and 81 times.
\<close>

definition game_start :: game where
  "game_start = new_Game canvas_400_300 0 0 False False True zero_rnd"

definition game_99 :: game where
  "game_99 = run (replicate 79 AddBtn_click) game_start"

definition game_100 :: game where
  "game_100 = run (replicate 80 AddBtn_click) game_start"

definition game_over :: game where
  "game_over = run (replicate 81 AddBtn_click) game_start"

section \<open>Properties of the rounding\<close>

lemma bit_length_le_iff: "bit_length n \<le> j \<longleftrightarrow> n < 2 ^ j"
proof (induction n arbitrary: j rule: bit_length.induct)
  case (1 n)
  show ?case
  proof (cases "n = 0")
    case True
    then show ?thesis by (simp add: bit_length.simps)
  next
    case False
    show ?thesis
    proof (cases j)
      case 0
      with False show ?thesis by (simp add: bit_length.simps [of n])
    next
      case (Suc i)
      from False have "bit_length n \<le> Suc i \<longleftrightarrow> bit_length (n div 2) \<le> i"
        by (simp add: bit_length.simps [of n])
      also from "1.IH" [OF False] have "\<dots> \<longleftrightarrow> n div 2 < 2 ^ i" .
      also have "\<dots> \<longleftrightarrow> n < 2 ^ Suc i" by auto
      finally show ?thesis using Suc by simp
    qed
  qed
qed

lemma bit_length_mono: "m \<le> n \<Longrightarrow> bit_length m \<le> bit_length n"
proof -
  assume "m \<le> n"
  have "n < 2 ^ bit_length n" using bit_length_le_iff [of n "bit_length n"] by simp
  with \<open>m \<le> n\<close> have "m < 2 ^ bit_length n" by simp
  then show ?thesis by (simp add: bit_length_le_iff)
qed

lemma bit_length_upper: "n < 2 ^ bit_length n"
  using bit_length_le_iff [of n "bit_length n"] by simp

lemma bit_length_lower: "0 < n \<Longrightarrow> 2 ^ (bit_length n - 1) \<le> n"
proof -
  assume pos: "0 < n"
  then have "bit_length n \<noteq> 0" by (simp add: bit_length.simps [of n])
  then have "\<not> bit_length n \<le> bit_length n - 1" by simp
  then have "\<not> n < 2 ^ (bit_length n - 1)"
    using bit_length_le_iff [of n "bit_length n - 1"] by blast
  then show ?thesis by simp
qed

lemma bit_length_eqI: "2 ^ j \<le> n \<Longrightarrow> n < 2 ^ Suc j \<Longrightarrow> bit_length n = Suc j"
proof -
  assume lo: "2 ^ j \<le> n" and hi: "n < 2 ^ Suc j"
  from hi have "bit_length n \<le> Suc j"
    using bit_length_le_iff [of n "Suc j"] by blast
  moreover from lo have "\<not> n < 2 ^ j" by simp
  then have "\<not> bit_length n \<le> j"
    using bit_length_le_iff [of n j] by blast
  ultimately show ?thesis by simp
qed

lemma round_half_even_of_int: "round_half_even (of_int q) = q"
  by (simp add: round_half_even_def)

lemma round_half_even_floor: "\<lfloor>t\<rfloor> \<le> round_half_even t \<and> round_half_even t \<le> \<lfloor>t\<rfloor> + 1"
  by (simp add: round_half_even_def Let_def)

lemma round_half_even_ge: "of_int q \<le> t \<Longrightarrow> q \<le> round_half_even t"
proof -
  assume "of_int q \<le> t"
  then have "q \<le> \<lfloor>t\<rfloor>" by (simp add: le_floor_iff)
  with round_half_even_floor [of t] show ?thesis by simp
qed

lemma round_half_even_le: "t \<le> of_int q \<Longrightarrow> round_half_even t \<le> q"
proof (cases "t = of_int q")
  case True
  then show ?thesis by (simp add: round_half_even_of_int)
next
  case False
  assume "t \<le> of_int q"
  with False have "t < of_int q" by simp
  then have "\<lfloor>t\<rfloor> < q" by (simp add: floor_less_iff)
  with round_half_even_floor [of t] show ?thesis by simp
qed


lemma round_units_negative:
  assumes "t \<le> - 1"
  shows "round_units t < 0"
proof -
  let ?N = "nat \<lfloor>\<bar>t\<bar>\<rfloor>"
  let ?j = "bit_length ?N"
  let ?k = "?j - 53"
  from assms have "1 \<le> \<lfloor>\<bar>t\<bar>\<rfloor>" by (simp add: le_floor_iff)
  then have pos: "0 < ?N" by simp
  have "?k \<le> ?j - 1" by simp
  then have "(2::nat) ^ ?k \<le> 2 ^ (?j - 1)" by (rule power_increasing) simp
  also have "\<dots> \<le> ?N" by (rule bit_length_lower [OF pos])
  finally have "real (2 ^ ?k) \<le> real ?N" by (simp only: of_nat_le_iff)
  also have "real ?N \<le> \<bar>t\<bar>" by (simp add: of_nat_nat)
  finally have "2 ^ ?k \<le> \<bar>t\<bar>" by simp
  with assms have "t \<le> - (2 ^ ?k)" by simp
  then have "t / 2 ^ ?k \<le> - 1" by (simp add: pos_divide_le_eq)
  then have "t / 2 ^ ?k \<le> of_int (- 1)" by simp
  then have "round_half_even (t / 2 ^ ?k) \<le> - 1" by (rule round_half_even_le)
  then have "round_half_even (t / 2 ^ ?k) * 2 ^ ?k < 0"
    by (simp add: mult_less_0_iff)
  then show ?thesis by (simp add: round_units_def Let_def)
qed


lemma round_step_ge:
  assumes "of_int (q * 2 ^ k) \<le> t"
  shows "q * 2 ^ k \<le> round_half_even (t / 2 ^ k) * 2 ^ k"
proof -
  from assms have "of_int q * 2 ^ k \<le> t" by simp
  then have "of_int q \<le> t / 2 ^ k" by (simp add: pos_le_divide_eq)
  then have "q \<le> round_half_even (t / 2 ^ k)" by (rule round_half_even_ge)
  then show ?thesis by (simp add: mult_right_mono)
qed

lemma power_two_split:
  assumes "k \<le> m"
  shows "(2::int) ^ m = 2 ^ (m - k) * 2 ^ k"
proof -
  from assms have "m = (m - k) + k" by simp
  then have "(2::int) ^ m = 2 ^ ((m - k) + k)" by simp
  then show ?thesis by (simp only: power_add)
qed

lemma round_units_ge:
  assumes rep: "round_units (of_int n) = n" and le: "of_int n \<le> t"
  shows "n \<le> round_units t"
proof -
  let ?N = "nat \<lfloor>\<bar>t\<bar>\<rfloor>"
  let ?j = "bit_length ?N"
  let ?k = "?j - 53"
  let ?jn = "bit_length (nat \<bar>n\<bar>)"
  let ?kn = "?jn - 53"
  let ?qn = "round_half_even (of_int n / 2 ^ ?kn)"
  have ru: "round_units t = round_half_even (t / 2 ^ ?k) * 2 ^ ?k"
    by (simp add: round_units_def Let_def)
  have "nat \<lfloor>\<bar>real_of_int n\<bar>\<rfloor> = nat \<bar>n\<bar>"
    by (metis floor_of_int of_int_abs)
  with rep have "n = ?qn * 2 ^ ?kn"
    by (simp add: round_units_def Let_def)
  then obtain q where n_eq: "n = q * 2 ^ ?kn" ..
  consider (mixed) "n \<le> 0" "0 \<le> t" | (pos) "0 < n" | (neg) "t < 0"
    by linarith
  then show ?thesis
  proof cases
    case mixed
    have "of_int (0 * 2 ^ ?k) \<le> t" using mixed by simp
    from round_step_ge [OF this] have "0 \<le> round_units t" by (simp add: ru)
    with mixed show ?thesis by simp
  next
    case pos
    with le have tpos: "0 < t" by linarith
    from le have "n \<le> \<lfloor>t\<rfloor>" by (simp add: le_floor_iff)
    with pos tpos have nN: "nat \<bar>n\<bar> \<le> ?N" by simp
    then have jj: "?jn \<le> ?j" by (rule bit_length_mono)
    show ?thesis
    proof (cases "?jn = ?j")
      case True
      with n_eq have nk: "n = q * 2 ^ ?k" by simp
      with le have "of_int (q * 2 ^ ?k) \<le> t" by (simp only:)
      then have "q * 2 ^ ?k \<le> round_half_even (t / 2 ^ ?k) * 2 ^ ?k"
        by (rule round_step_ge)
      then show ?thesis by (simp only: ru nk [symmetric])
    next
      case False
      with jj have lt: "?jn \<le> ?j - 1" by linarith
      from pos have "0 < nat \<bar>n\<bar>" by simp
      with nN have Npos: "0 < ?N" by (rule order.strict_trans2 [rotated])
      have "nat \<bar>n\<bar> < 2 ^ ?jn" by (rule bit_length_upper)
      also have "(2::nat) ^ ?jn \<le> 2 ^ (?j - 1)" using lt by (rule power_increasing) simp
      finally have "int (nat \<bar>n\<bar>) < int (2 ^ (?j - 1))" by (simp only: of_nat_less_iff)
      with pos have n_small: "n < 2 ^ (?j - 1)" by simp
      have "real (2 ^ (?j - 1)) \<le> real ?N"
        using bit_length_lower [OF Npos] by (simp only: of_nat_le_iff)
      also have "real ?N \<le> \<bar>t\<bar>" by (simp add: of_nat_nat)
      finally have B_le: "2 ^ (?j - 1) \<le> t" using tpos by simp
      have "?k \<le> ?j - 1" by simp
      then have "(2::int) ^ (?j - 1) = 2 ^ (?j - 1 - ?k) * 2 ^ ?k"
        by (rule power_two_split)
      with B_le have "of_int (2 ^ (?j - 1 - ?k) * 2 ^ ?k) \<le> t"
        by (metis of_int_numeral of_int_power)
      then have "2 ^ (?j - 1 - ?k) * 2 ^ ?k \<le> round_half_even (t / 2 ^ ?k) * 2 ^ ?k"
        by (rule round_step_ge)
      then have "2 ^ (?j - 1) \<le> round_units t"
        by (simp only: ru \<open>(2::int) ^ (?j - 1) = 2 ^ (?j - 1 - ?k) * 2 ^ ?k\<close>)
      with n_small show ?thesis by simp
    qed
  next
    case neg
    with le have nneg: "n < 0" by linarith
    from neg le have "\<bar>t\<bar> \<le> \<bar>of_int n\<bar>" by linarith
    then have "\<lfloor>\<bar>t\<bar>\<rfloor> \<le> \<lfloor>\<bar>real_of_int n\<bar>\<rfloor>" by (rule floor_mono)
    also have "\<dots> = \<bar>n\<bar>" by (metis floor_of_int of_int_abs)
    finally have "?N \<le> nat \<bar>n\<bar>" by simp
    then have "?j \<le> ?jn" by (rule bit_length_mono)
    then have kk: "?k \<le> ?kn" by (rule diff_le_mono)
    then have "(2::int) ^ ?kn = 2 ^ (?kn - ?k) * 2 ^ ?k"
      by (rule power_two_split)
    with n_eq have nk: "n = (q * 2 ^ (?kn - ?k)) * 2 ^ ?k"
      by (simp add: mult.assoc)
    with le have "of_int ((q * 2 ^ (?kn - ?k)) * 2 ^ ?k) \<le> t" by (simp only:)
    then have "(q * 2 ^ (?kn - ?k)) * 2 ^ ?k \<le> round_half_even (t / 2 ^ ?k) * 2 ^ ?k"
      by (rule round_step_ge)
    then show ?thesis by (simp only: ru nk [symmetric])
  qed
qed


lemma bit_length_shift:
  assumes "0 < n"
  shows "bit_length (n * 2 ^ s) = bit_length n + s"
proof -
  from assms have "bit_length n \<noteq> 0" by (simp add: bit_length.simps [of n])
  then obtain i where i: "bit_length n = Suc i" by (cases "bit_length n") simp_all
  from bit_length_lower [OF assms] i have "2 ^ i \<le> n" by simp
  then have lo: "2 ^ (i + s) \<le> n * 2 ^ s" by (simp add: power_add)
  from bit_length_upper [of n] i have "n < 2 ^ Suc i" by simp
  then have "n * 2 ^ s < 2 ^ Suc i * 2 ^ s" by simp
  then have hi: "n * 2 ^ s < 2 ^ Suc (i + s)" by (simp add: power_add)
  from bit_length_eqI [OF lo hi] i show ?thesis by simp
qed

lemma round_units_of_int:
  "round_units (of_int a) =
     round_half_even (of_int a / 2 ^ (bit_length (nat \<bar>a\<bar>) - 53)) *
     2 ^ (bit_length (nat \<bar>a\<bar>) - 53)"
proof -
  have "nat \<lfloor>\<bar>real_of_int a\<bar>\<rfloor> = nat \<bar>a\<bar>"
    by (metis floor_of_int of_int_abs)
  then show ?thesis by (simp only: round_units_def Let_def)
qed

lemma round_units_shift: "round_units (of_int (m * 2 ^ s)) = round_units (of_int m) * 2 ^ s"
proof (cases "m = 0")
  case True
  then show ?thesis by (simp add: round_units_def round_half_even_def)
next
  case False
  let ?N = "nat \<bar>m\<bar>"
  let ?b = "bit_length ?N"
  let ?k = "?b - 53"
  from False have pos: "0 < ?N" by simp
  have "nat \<bar>m * 2 ^ s\<bar> = ?N * 2 ^ s"
    by (simp add: abs_mult nat_mult_distrib nat_power_eq)
  then have bl: "bit_length (nat \<bar>m * 2 ^ s\<bar>) = ?b + s"
    by (simp only: bit_length_shift [OF pos])
  have unf: "round_units (of_int (m * 2 ^ s)) =
      round_half_even (of_int (m * 2 ^ s) / 2 ^ (?b + s - 53)) * 2 ^ (?b + s - 53)"
    by (simp only: round_units_of_int bl)
  show ?thesis
  proof (cases "53 \<le> ?b")
    case True
    then have k: "?b + s - 53 = ?k + s" by simp
    have q: "real_of_int (m * 2 ^ s) / 2 ^ (?k + s) = real_of_int m / 2 ^ ?k"
      by (simp add: power_add)
    have "round_units (of_int (m * 2 ^ s)) =
        round_half_even (real_of_int m / 2 ^ ?k) * 2 ^ (?k + s)"
      by (simp only: unf k q)
    also have "\<dots> = round_half_even (real_of_int m / 2 ^ ?k) * 2 ^ ?k * 2 ^ s"
      by (simp only: power_add mult.assoc)
    also have "\<dots> = round_units (of_int m) * 2 ^ s"
      by (simp only: round_units_of_int)
    finally show ?thesis .
  next
    case False
    then have k0: "?k = 0" by simp
    let ?kt = "?b + s - 53"
    from False have "?kt \<le> s" by simp
    then have sp: "(2::int) ^ s = 2 ^ (s - ?kt) * 2 ^ ?kt" by (rule power_two_split)
    have "real_of_int (m * 2 ^ s) / 2 ^ ?kt = real_of_int (m * 2 ^ (s - ?kt) * 2 ^ ?kt) / 2 ^ ?kt"
      by (simp only: sp mult.assoc)
    also have "\<dots> = real_of_int (m * 2 ^ (s - ?kt))" by simp
    finally have "round_half_even (real_of_int (m * 2 ^ s) / 2 ^ ?kt) = m * 2 ^ (s - ?kt)"
      by (simp only: round_half_even_of_int)
    then have "round_units (of_int (m * 2 ^ s)) = m * 2 ^ (s - ?kt) * 2 ^ ?kt"
      by (simp only: unf)
    also have "\<dots> = m * 2 ^ s" by (simp only: sp mult.assoc)
    finally have lhs: "round_units (of_int (m * 2 ^ s)) = m * 2 ^ s" .
    have "round_units (of_int m) = round_half_even (of_int m / 2 ^ 0) * 2 ^ 0"
      by (simp only: round_units_of_int k0)
    then have "round_units (of_int m) = m"
      by (simp add: round_half_even_of_int)
    with lhs show ?thesis by simp
  qed
qed

lemma units_positive: "0 < units"
  by (simp add: units_def)

lemma units_split:
  assumes "d \<le> 1074"
  shows "units = 2 ^ (1074 - d) * 2 ^ d"
proof -
  from assms have "(1074::nat) = (1074 - d) + d" by simp
  then have "(2::real) ^ 1074 = 2 ^ ((1074 - d) + d)" by simp
  then show ?thesis by (simp only: units_def power_add)
qed

lemma binary64_dyadic:
  assumes "d \<le> 1074"
  shows "binary64 (of_int m / 2 ^ d) = of_int (round_units (of_int m)) / 2 ^ d"
proof -
  note p = units_split [OF assms]
  have "of_int m / 2 ^ d * units = of_int (m * 2 ^ (1074 - d))"
    by (simp add: p)
  then have "binary64 (of_int m / 2 ^ d) = of_int (round_units (of_int m) * 2 ^ (1074 - d)) / units"
    by (simp only: binary64_def round_units_shift)
  also have "\<dots> = of_int (round_units (of_int m)) / 2 ^ d"
    by (simp add: p)
  finally show ?thesis .
qed

lemma binary64_grid: "binary64 w * units = of_int (round_units (w * units))"
  using units_positive by (simp add: binary64_def)

lemma binary64_ge:
  assumes rep: "binary64 r = r" and le: "r \<le> z"
  shows "r \<le> binary64 z"
proof -
  let ?n = "round_units (r * units)"
  from rep binary64_grid [of r] have n: "of_int ?n = r * units" by simp
  then have "round_units (of_int ?n) = ?n" by simp
  moreover from le n units_positive have "of_int ?n \<le> z * units" by simp
  ultimately have "?n \<le> round_units (z * units)" by (rule round_units_ge)
  then have "real_of_int ?n \<le> of_int (round_units (z * units))" by simp
  with n have "r * units \<le> of_int (round_units (z * units))" by simp
  with units_positive have "r \<le> of_int (round_units (z * units)) / units"
    by (simp add: pos_le_divide_eq)
  then show ?thesis by (simp only: binary64_def)
qed

lemma binary64_difference_negative:
  assumes na: "a * units = of_int na" and nb: "b * units = of_int nb" and lt: "a < b"
  shows "binary64 (a - b) < 0"
proof -
  from lt units_positive have "a * units < b * units" by simp
  with na nb have "real_of_int na < real_of_int nb" by simp
  then have "na < nb" by simp
  then have "na - nb \<le> - 1" by simp
  then have "real_of_int (na - nb) \<le> - 1" by (metis of_int_le_iff of_int_minus of_int_1)
  with na nb have "(a - b) * units \<le> - 1" by (simp add: algebra_simps)
  then have "round_units ((a - b) * units) < 0" by (rule round_units_negative)
  with units_positive show ?thesis by (simp add: binary64_def divide_less_0_iff)
qed

lemma round_units_exact:
  assumes "nat \<bar>m\<bar> < 2 ^ 53"
  shows "round_units (of_int m) = m"
proof -
  from assms have "bit_length (nat \<bar>m\<bar>) \<le> 53"
    using bit_length_le_iff [of "nat \<bar>m\<bar>" 53] by blast
  then have "bit_length (nat \<bar>m\<bar>) - 53 = 0" by simp
  then have "round_units (of_int m) = round_half_even (of_int m / 2 ^ 0) * 2 ^ 0"
    by (simp only: round_units_of_int)
  then show ?thesis by (simp add: round_half_even_of_int)
qed

lemma round_units_54:
  assumes "2 ^ 53 \<le> nat \<bar>m\<bar>" and "nat \<bar>m\<bar> < 2 ^ 54"
  shows "round_units (of_int m) = round_half_even (of_int m / 2) * 2"
proof -
  from assms have "bit_length (nat \<bar>m\<bar>) = Suc 53"
    by (intro bit_length_eqI) simp_all
  then have "bit_length (nat \<bar>m\<bar>) - 53 = 1" by simp
  then have "round_units (of_int m) = round_half_even (of_int m / 2 ^ 1) * 2 ^ 1"
    by (simp only: round_units_of_int)
  then show ?thesis by simp
qed

lemma binary64_exact:
  assumes "d \<le> 1074" and "nat \<bar>m\<bar> < 2 ^ 53"
  shows "binary64 (of_int m / 2 ^ d) = of_int m / 2 ^ d"
  by (simp only: binary64_dyadic [OF assms(1)] round_units_exact [OF assms(2)])

lemma binary64_integer:
  assumes "nat \<bar>m\<bar> < 2 ^ 53"
  shows "binary64 (of_int m) = of_int m"
  using binary64_exact [of 0 m] assms by simp

lemma binary64_half:
  assumes "d \<le> 1074" and "2 ^ 53 \<le> nat \<bar>m\<bar>" and "nat \<bar>m\<bar> < 2 ^ 54"
  shows "binary64 (of_int m / 2 ^ d) = of_int (round_half_even (of_int m / 2) * 2) / 2 ^ d"
  by (simp only: binary64_dyadic [OF assms(1)] round_units_54 [OF assms(2,3)])

section \<open>Properties of a single ball\<close>

subsection \<open>\<open>update\<close>\<close>

text \<open>With the identity in place of the rounding, the second form of \<open>update\<close> is the first.\<close>

lemma update_rounded_exact: "update_rounded (\<lambda>v. v) c e = update c e"
  by (cases e)
    (simp_all add: Ball_update_rounded_def Ball_update_def MovingBall_update_rounded_def
      MovingBall_update_def)

lemma Ball_update_rounded_radius: "radius (Ball_update_rounded rd c b) = radius b"
  by (simp add: Ball_update_rounded_def Let_def)

lemma Ball_update_rounded_x:
  assumes rep: "binary64 (radius b) = radius b" and wide: "2 * radius b \<le> clientWidth c"
  shows "radius b \<le> x (Ball_update_rounded binary64 c b) \<and>
         (x (Ball_update_rounded binary64 c b) \<le> binary64 (clientWidth c - radius b) \<or>
          binary64 (x (Ball_update_rounded binary64 c b) + radius b) \<le> clientWidth c)"
proof -
  let ?x1 = "binary64 (x b + speedX b)"
  from wide have "radius b \<le> clientWidth c - radius b" by simp
  with rep have far: "radius b \<le> binary64 (clientWidth c - radius b)"
    by (rule binary64_ge)
  have near: "radius b \<le> ?x1" if "\<not> binary64 (?x1 - radius b) < 0"
  proof (rule ccontr)
    assume "\<not> radius b \<le> ?x1"
    then have "?x1 < radius b" by simp
    moreover have "?x1 * units = of_int (round_units ((x b + speedX b) * units))"
      by (rule binary64_grid)
    moreover from rep binary64_grid [of "radius b"]
    have "radius b * units = of_int (round_units (radius b * units))" by simp
    ultimately have "binary64 (?x1 - radius b) < 0"
      by (intro binary64_difference_negative)
    with that show False by simp
  qed
  from far near show ?thesis
    by (auto simp add: Ball_update_rounded_def Let_def)
qed


lemma Ball_update_rounded_y:
  assumes rep: "binary64 (radius b) = radius b" and high: "2 * radius b \<le> clientHeight c"
  shows "radius b \<le> y (Ball_update_rounded binary64 c b) \<and>
         (y (Ball_update_rounded binary64 c b) \<le> binary64 (clientHeight c - radius b) \<or>
          binary64 (y (Ball_update_rounded binary64 c b) + radius b) \<le> clientHeight c)"
proof -
  let ?y1 = "binary64 (y b + speedY b)"
  from high have "radius b \<le> clientHeight c - radius b" by simp
  with rep have far: "radius b \<le> binary64 (clientHeight c - radius b)"
    by (rule binary64_ge)
  have near: "radius b \<le> ?y1" if "\<not> binary64 (?y1 - radius b) < 0"
  proof (rule ccontr)
    assume "\<not> radius b \<le> ?y1"
    then have "?y1 < radius b" by simp
    moreover have "?y1 * units = of_int (round_units ((y b + speedY b) * units))"
      by (rule binary64_grid)
    moreover from rep binary64_grid [of "radius b"]
    have "radius b * units = of_int (round_units (radius b * units))" by simp
    ultimately have "binary64 (?y1 - radius b) < 0"
      by (intro binary64_difference_negative)
    with that show False by simp
  qed
  from far near show ?thesis
    by (auto simp add: Ball_update_rounded_def Let_def)
qed

lemma Ball_update_rounded_no_bounce_x:
  assumes "rd (x b + speedX b) = x1"
    and "\<not> rd (x1 + radius b) > clientWidth c" and "\<not> rd (x1 - radius b) < 0"
  shows "x (Ball_update_rounded rd c b) = x1 \<and> speedX (Ball_update_rounded rd c b) = speedX b"
  using assms by (simp add: Ball_update_rounded_def Let_def)

lemma edge_x1: "binary64 (x edge_ball + speedX edge_ball) = 388 + 1 / 2 ^ 44"
proof -
  have "x edge_ball + speedX edge_ball = of_int 6825768185233409 / 2 ^ 44"
    by (simp add: edge_ball_def)
  then have "binary64 (x edge_ball + speedX edge_ball) =
               binary64 (of_int 6825768185233409 / 2 ^ 44)"
    by (simp only:)
  also have "\<dots> = of_int 6825768185233409 / 2 ^ 44"
    by (rule binary64_exact) simp_all
  also have "\<dots> = 388 + 1 / 2 ^ 44" by simp
  finally show ?thesis .
qed

lemma edge_far: "binary64 (388 + 1 / 2 ^ 44 + radius edge_ball) = 400"
proof -
  have "388 + 1 / 2 ^ 44 + radius edge_ball = of_int 14073748835532801 / 2 ^ 45"
    by (simp add: edge_ball_def)
  then have "binary64 (388 + 1 / 2 ^ 44 + radius edge_ball) =
               binary64 (of_int 14073748835532801 / 2 ^ 45)"
    by (simp only:)
  also have "\<dots> = of_int (round_half_even (of_int 14073748835532801 / 2) * 2) / 2 ^ 45"
    by (rule binary64_half) simp_all
  also have "\<dots> = 400"
    by (simp add: round_half_even_def Let_def)
  finally show ?thesis .
qed

lemma edge_near: "binary64 (388 + 1 / 2 ^ 44 - radius edge_ball) = 376 + 1 / 2 ^ 43"
proof -
  have "388 + 1 / 2 ^ 44 - radius edge_ball = of_int 13229323905400835 / 2 ^ 45"
    by (simp add: edge_ball_def)
  then have "binary64 (388 + 1 / 2 ^ 44 - radius edge_ball) =
               binary64 (of_int 13229323905400835 / 2 ^ 45)"
    by (simp only:)
  also have "\<dots> = of_int (round_half_even (of_int 13229323905400835 / 2) * 2) / 2 ^ 45"
    by (rule binary64_half) simp_all
  also have "\<dots> = 376 + 1 / 2 ^ 43"
    by (simp add: round_half_even_def Let_def)
  finally show ?thesis .
qed

lemma edge_tangent:
  "binary64 (clientWidth canvas_400_300 - radius edge_ball) = 388"
proof -
  have "clientWidth canvas_400_300 - radius edge_ball = of_int 13651536370466817 / 2 ^ 45"
    by (simp add: edge_ball_def canvas_400_300_def)
  then have "binary64 (clientWidth canvas_400_300 - radius edge_ball) =
               binary64 (of_int 13651536370466817 / 2 ^ 45)"
    by (simp only:)
  also have "\<dots> = of_int (round_half_even (of_int 13651536370466817 / 2) * 2) / 2 ^ 45"
    by (rule binary64_half) simp_all
  also have "\<dots> = 388"
    by (simp add: round_half_even_def Let_def)
  finally show ?thesis .
qed

lemma edge_radius: "is_double (radius edge_ball)"
proof -
  have v: "radius edge_ball = of_int 422212465065983 / 2 ^ 45"
    by (simp add: edge_ball_def)
  have "binary64 (of_int 422212465065983 / 2 ^ 45) = of_int 422212465065983 / 2 ^ 45"
    by (rule binary64_exact) simp_all
  then have "binary64 (radius edge_ball) = radius edge_ball" by (simp only: v)
  moreover have "\<bar>radius edge_ball\<bar> < 2 ^ 1024" by (simp add: edge_ball_def)
  ultimately show ?thesis by (simp only: is_double_def)
qed

lemma edge_x: "is_double (x edge_ball)"
proof -
  have v: "x edge_ball = of_int 6808175999188993 / 2 ^ 44"
    by (simp add: edge_ball_def)
  have "binary64 (of_int 6808175999188993 / 2 ^ 44) = of_int 6808175999188993 / 2 ^ 44"
    by (rule binary64_exact) simp_all
  then have "binary64 (x edge_ball) = x edge_ball" by (simp only: v)
  moreover have "\<bar>x edge_ball\<bar> < 2 ^ 1024" by (simp add: edge_ball_def)
  ultimately show ?thesis by (simp only: is_double_def)
qed

lemma corner_radius: "is_double (radius corner_ball)"
proof -
  have v: "radius corner_ball = of_int 10" by (simp add: corner_ball_def)
  have "binary64 (of_int 10) = of_int 10" by (rule binary64_integer) simp
  then have "binary64 (radius corner_ball) = radius corner_ball" by (simp only: v)
  moreover have "\<bar>radius corner_ball\<bar> < 2 ^ 1024" by (simp add: corner_ball_def)
  ultimately show ?thesis by (simp only: is_double_def)
qed

text \<open>
  Claim C3, as the code has it. For an element of either class whose radius is a double,
  whatever its position and velocity before the call: when the canvas is at least twice
  the radius wide and high, \<open>update\<close> in the arithmetic of doubles leaves the radius
  as it was and the position at least the radius on both axes. Above, the interval is
  kept only up to rounding: on each axis the position is at most the far tangent point as
  the method computes it, the rounded difference of the dimension and the radius, or else
  the rounded sum of position and radius, which is what the method tests, does not exceed
  the dimension.
\<close>

theorem update_rounded_within_bounds:
  assumes "is_double (radius_of e)"
    and "2 * radius_of e \<le> clientWidth c" and "2 * radius_of e \<le> clientHeight c"
  shows "radius_of (update_rounded binary64 c e) = radius_of e \<and>
         radius_of e \<le> pos_x (update_rounded binary64 c e) \<and>
         (pos_x (update_rounded binary64 c e) \<le> binary64 (clientWidth c - radius_of e) \<or>
          binary64 (pos_x (update_rounded binary64 c e) + radius_of e) \<le> clientWidth c) \<and>
         radius_of e \<le> pos_y (update_rounded binary64 c e) \<and>
         (pos_y (update_rounded binary64 c e) \<le> binary64 (clientHeight c - radius_of e) \<or>
          binary64 (pos_y (update_rounded binary64 c e) + radius_of e) \<le> clientHeight c)"
proof (cases e)
  case (Ball b)
  with assms have rep: "binary64 (radius b) = radius b"
    and wide: "2 * radius b \<le> clientWidth c" and high: "2 * radius b \<le> clientHeight c"
    by (simp_all add: is_double_def)
  from Ball Ball_update_rounded_x [OF rep wide] Ball_update_rounded_y [OF rep high]
  show ?thesis by (simp add: Ball_update_rounded_radius)
next
  case (MovingBall m)
  let ?m' = "m\<lparr>speedX := binary64 (speedX m + ax m), speedY := binary64 (speedY m + ay m)\<rparr>"
  have u: "MovingBall_update_rounded binary64 c m = Ball_update_rounded binary64 c ?m'"
    by (simp add: MovingBall_update_rounded_def Let_def)
  from MovingBall assms have rep: "binary64 (radius ?m') = radius ?m'"
    and wide: "2 * radius ?m' \<le> clientWidth c" and high: "2 * radius ?m' \<le> clientHeight c"
    by (simp_all add: is_double_def)
  from MovingBall Ball_update_rounded_x [OF rep wide] Ball_update_rounded_y [OF rep high]
  show ?thesis by (simp add: u Ball_update_rounded_radius)
qed

theorem update_rounded_within_bounds_witness:
  "is_double (radius_of (Ball corner_ball)) \<and>
   2 * radius_of (Ball corner_ball) \<le> clientWidth canvas_400_300 \<and>
   2 * radius_of (Ball corner_ball) \<le> clientHeight canvas_400_300 \<and>
   radius_of (update_rounded binary64 canvas_400_300 (Ball corner_ball))
     = radius_of (Ball corner_ball) \<and>
   radius_of (Ball corner_ball)
     \<le> pos_x (update_rounded binary64 canvas_400_300 (Ball corner_ball)) \<and>
   (pos_x (update_rounded binary64 canvas_400_300 (Ball corner_ball))
      \<le> binary64 (clientWidth canvas_400_300 - radius_of (Ball corner_ball)) \<or>
    binary64 (pos_x (update_rounded binary64 canvas_400_300 (Ball corner_ball))
                + radius_of (Ball corner_ball)) \<le> clientWidth canvas_400_300) \<and>
   radius_of (Ball corner_ball)
     \<le> pos_y (update_rounded binary64 canvas_400_300 (Ball corner_ball)) \<and>
   (pos_y (update_rounded binary64 canvas_400_300 (Ball corner_ball))
      \<le> binary64 (clientHeight canvas_400_300 - radius_of (Ball corner_ball)) \<or>
    binary64 (pos_y (update_rounded binary64 canvas_400_300 (Ball corner_ball))
                + radius_of (Ball corner_ball)) \<le> clientHeight canvas_400_300)"
proof -
  have d: "is_double (radius_of (Ball corner_ball))"
    using corner_radius by simp
  have w: "2 * radius_of (Ball corner_ball) \<le> clientWidth canvas_400_300"
    and h: "2 * radius_of (Ball corner_ball) \<le> clientHeight canvas_400_300"
    by (simp_all add: corner_ball_def canvas_400_300_def)
  from update_rounded_within_bounds [OF d w h] d w h show ?thesis by blast
qed

text \<open>
  The claim as the specification words it fails. On the 400 wide canvas the ball at
  \<open>387 + 2 ^ -44\<close> with radius \<open>12 - 2 ^ -45\<close> and speed 1 moves to \<open>388 + 2 ^ -44\<close>;
  the sum of position and radius, \<open>400 + 2 ^ -45\<close>, rounds to 400, the test
  \<open>x + radius > cw\<close> fails and nothing is reflected. The position is then above
  \<open>400 - radius\<close>, both exactly and as the double 388.
\<close>

theorem update_rounding_counterexample:
  "is_double (pos_x (Ball edge_ball)) \<and> is_double (radius_of (Ball edge_ball)) \<and>
   2 * radius_of (Ball edge_ball) \<le> clientWidth canvas_400_300 \<and>
   2 * radius_of (Ball edge_ball) \<le> clientHeight canvas_400_300 \<and>
   pos_x (update_rounded binary64 canvas_400_300 (Ball edge_ball)) = 388 + 1 / 2 ^ 44 \<and>
   vel_x (update_rounded binary64 canvas_400_300 (Ball edge_ball)) = 1 \<and>
   \<not> pos_x (update_rounded binary64 canvas_400_300 (Ball edge_ball))
       \<le> clientWidth canvas_400_300 - radius_of (Ball edge_ball) \<and>
   \<not> pos_x (update_rounded binary64 canvas_400_300 (Ball edge_ball))
       \<le> binary64 (clientWidth canvas_400_300 - radius_of (Ball edge_ball))"
proof -
  have wide: "2 * radius edge_ball \<le> clientWidth canvas_400_300"
    and high: "2 * radius edge_ball \<le> clientHeight canvas_400_300"
    by (simp_all add: edge_ball_def canvas_400_300_def)
  have far: "\<not> binary64 (388 + 1 / 2 ^ 44 + radius edge_ball) > clientWidth canvas_400_300"
    unfolding edge_far by (simp add: canvas_400_300_def)
  have near: "\<not> binary64 (388 + 1 / 2 ^ 44 - radius edge_ball) < 0"
    unfolding edge_near by simp
  from Ball_update_rounded_no_bounce_x [OF edge_x1 far near]
  have px: "x (Ball_update_rounded binary64 canvas_400_300 edge_ball) = 388 + 1 / 2 ^ 44"
    and vx: "speedX (Ball_update_rounded binary64 canvas_400_300 edge_ball) = 1"
    by (simp_all add: edge_ball_def)
  have exact: "\<not> (388 + 1 / 2 ^ 44 :: real) \<le> clientWidth canvas_400_300 - radius edge_ball"
    by (simp add: edge_ball_def canvas_400_300_def)
  have rounded: "\<not> (388 + 1 / 2 ^ 44 :: real)
                    \<le> binary64 (clientWidth canvas_400_300 - radius edge_ball)"
    unfolding edge_tangent by simp
  from edge_x edge_radius wide high px vx exact rounded show ?thesis
    by (simp only: update_rounded.simps pos_x.simps vel_x.simps radius_of.simps) simp
qed

text \<open>
  Claim C5. On a 400 by 300 canvas a ball at (5, 5) with radius 10 and velocity (-3, -3)
  is, after one \<open>update\<close>, at (10, 10) with velocity (3, 3): both axes bounce in the same
  call. In general, on each axis \<open>Ball.update\<close> tests the far edge first and the near
  edge only when the far test fails, so the new coordinate is the far tangent point, else
  the near tangent point, else the moved coordinate, and the speed on that axis is negated
  once when either test fires and kept otherwise.
\<close>

theorem update_corner_scenario:
  "update \<lparr>clientWidth = 400, clientHeight = 300\<rparr>
     (Ball \<lparr>x = 5, y = 5, radius = 10, speedX = - 3, speedY = - 3, hue = h\<rparr>)
   = Ball \<lparr>x = 10, y = 10, radius = 10, speedX = 3, speedY = 3, hue = h\<rparr> \<and>
   x (Ball_update c b) =
     (if x b + speedX b + radius b > clientWidth c then clientWidth c - radius b
      else if x b + speedX b - radius b < 0 then radius b
      else x b + speedX b) \<and>
   speedX (Ball_update c b) =
     (if x b + speedX b + radius b > clientWidth c \<or> x b + speedX b - radius b < 0
      then - speedX b else speedX b) \<and>
   y (Ball_update c b) =
     (if y b + speedY b + radius b > clientHeight c then clientHeight c - radius b
      else if y b + speedY b - radius b < 0 then radius b
      else y b + speedY b) \<and>
   speedY (Ball_update c b) =
     (if y b + speedY b + radius b > clientHeight c \<or> y b + speedY b - radius b < 0
      then - speedY b else speedY b)"
  by (simp add: Ball_update_def Let_def)

subsection \<open>\<open>clampToBounds\<close>\<close>

lemma Ball_clampToBounds_idem:
  "Ball_clampToBounds c (Ball_clampToBounds c b) = Ball_clampToBounds c b"
  by (simp add: Ball_clampToBounds_def Let_def)

text \<open>
  Claim C8. \<open>clampToBounds\<close> is idempotent on every element and every canvas, also a
  canvas smaller than the element's diameter: a second call changes nothing. It never
  changes the velocity.
\<close>

theorem clampToBounds_idempotent:
  "clampToBounds c (clampToBounds c e) = clampToBounds c e \<and>
   vel_x (clampToBounds c e) = vel_x e \<and> vel_y (clampToBounds c e) = vel_y e"
  by (cases e)
    (simp_all add: Ball_clampToBounds_idem, simp_all add: Ball_clampToBounds_def Let_def)

text \<open>
  Claim C4, as the code has it. When the canvas is narrower than twice the radius,
  \<open>clampToBounds\<close> sets the horizontal coordinate to the radius (the tangent point of
  the near edge), not to the middle of the canvas; likewise vertically when the canvas is
  lower than twice the radius. The result is a number in every case: the model of the
  method is total.
\<close>

theorem clampToBounds_inverted:
  "(clientWidth c < 2 * radius_of e \<longrightarrow> pos_x (clampToBounds c e) = radius_of e) \<and>
   (clientHeight c < 2 * radius_of e \<longrightarrow> pos_y (clampToBounds c e) = radius_of e)"
  by (cases e) (auto simp add: Ball_clampToBounds_def Let_def)

theorem clampToBounds_inverted_witness:
  "clientWidth canvas_16_12 < 2 * radius_of (Ball corner_ball) \<and>
   pos_x (clampToBounds canvas_16_12 (Ball corner_ball)) = radius_of (Ball corner_ball) \<and>
   clientHeight canvas_16_12 < 2 * radius_of (Ball corner_ball) \<and>
   pos_y (clampToBounds canvas_16_12 (Ball corner_ball)) = radius_of (Ball corner_ball)"
  using clampToBounds_inverted [of canvas_16_12 "Ball corner_ball"]
  by (simp add: canvas_16_12_def corner_ball_def)

text \<open>
  The claim as the specification words it fails: on a canvas 16 wide and 12 high the ball
  of radius 10 is put at (10, 10), while the middle of the canvas is (8, 6).
\<close>

theorem clampToBounds_midpoint_counterexample:
  "clientWidth canvas_16_12 < 2 * radius_of (Ball corner_ball) \<and>
   pos_x (clampToBounds canvas_16_12 (Ball corner_ball)) \<noteq> clientWidth canvas_16_12 / 2 \<and>
   clientHeight canvas_16_12 < 2 * radius_of (Ball corner_ball) \<and>
   pos_y (clampToBounds canvas_16_12 (Ball corner_ball)) \<noteq> clientHeight canvas_16_12 / 2"
  by (simp add: canvas_16_12_def corner_ball_def Ball_clampToBounds_def Let_def)

section \<open>Properties of the game\<close>

subsection \<open>Frames\<close>

lemma accel_update: "accel (update c e) = accel e"
  by (cases e) (simp_all add: MovingBall_update_def Ball_update_def Let_def)

lemma accel_clampToBounds: "accel (clampToBounds c e) = accel e"
  by (cases e) (simp_all add: Ball_clampToBounds_def Let_def)

lemma loop_from_accel: "map accel (fst (loop_from c over i bs)) = map accel bs"
  by (induction bs arbitrary: i) (simp_all add: Let_def case_prod_beta accel_update)

lemma loop_from_length: "length (fst (loop_from c over i bs)) = length bs"
  by (induction bs arbitrary: i) (simp_all add: Let_def case_prod_beta)

lemma loop_from_over:
  "loop_from c True i bs = (bs, map (\<lambda>(j, e). draw j e) (enumerate i bs))"
  by (induction bs arbitrary: i) simp_all

lemma loop_fields:
  "length (balls (fst (loop g))) = length (balls g) \<and>
   isGameOver (fst (loop g)) = isGameOver g \<and>
   addBtn_disabled (fst (loop g)) = addBtn_disabled g \<and>
   clearBtn_disabled (fst (loop g)) = clearBtn_disabled g \<and>
   gameOverBox_hidden (fst (loop g)) = gameOverBox_hidden g"
  by (simp add: loop_def case_prod_beta loop_from_length)

subsection \<open>Spawning\<close>

lemma checkGameOver_cases:
  "checkGameOver g =
     (if 100 \<le> length (balls g) \<and> \<not> isGameOver g
      then (True, g\<lparr>isGameOver := True, addBtn_disabled := True, clearBtn_disabled := True,
                    gameOverBox_hidden := False\<rparr>)
      else (False, g))"
  by (simp add: checkGameOver_def disableButtons_def)

lemmas spawn_defs = addRandomBall_def addBallOnClick_def addBallOnTouch_def

lemma spawn_rejected:
  assumes "is_spawn e" and "100 \<le> length (balls g)" and "\<not> isGameOver g"
  shows "step e g = g\<lparr>isGameOver := True, addBtn_disabled := True, clearBtn_disabled := True,
                       gameOverBox_hidden := False\<rparr>"
proof (cases e)
  case (Canvas_touchstart ts)
  with assms(1) obtain tx ty rest where "ts = (tx, ty) # rest"
    by (cases ts) auto
  with Canvas_touchstart assms(2,3) show ?thesis
    by (simp add: spawn_defs checkGameOver_cases)
qed (use assms in \<open>simp_all add: spawn_defs checkGameOver_cases\<close>)

lemma spawn_admitted:
  assumes "is_spawn e" and "length (balls g) < 100 \<or> isGameOver g"
  shows "balls (step e g) = balls g @ [last (balls (step e g))] \<and>
         isGameOver (step e g) = isGameOver g \<and>
         addBtn_disabled (step e g) = addBtn_disabled g \<and>
         clearBtn_disabled (step e g) = clearBtn_disabled g \<and>
         gameOverBox_hidden (step e g) = gameOverBox_hidden g"
proof (cases e)
  case (Canvas_touchstart ts)
  with assms(1) obtain tx ty rest where "ts = (tx, ty) # rest"
    by (cases ts) auto
  with Canvas_touchstart assms(2) show ?thesis
    by (auto simp add: spawn_defs checkGameOver_cases Let_def case_prod_beta)
qed (use assms in \<open>auto simp add: spawn_defs checkGameOver_cases Let_def case_prod_beta\<close>)

lemma spawn_admitted_length:
  assumes "is_spawn e" and "length (balls g) < 100 \<or> isGameOver g"
  shows "length (balls (step e g)) = Suc (length (balls g))"
proof -
  from spawn_admitted [OF assms]
  have "balls (step e g) = balls g @ [last (balls (step e g))]" by simp
  then have "length (balls (step e g)) = length (balls g @ [last (balls (step e g))])"
    by simp
  then show ?thesis by simp
qed

text \<open>
  Once the flag is set, \<open>checkGameOver\<close> answers false, since its test asks for the flag
  to be unset; a click or a touch on the canvas then adds a ball although the game is over.
\<close>

lemma spawn_admitted_while_Over:
  assumes "is_spawn e" and "isGameOver g"
  shows "length (balls (step e g)) = Suc (length (balls g)) \<and> isGameOver (step e g)"
  using spawn_admitted [of e g] spawn_admitted_length [of e g] assms by simp

lemma addRandomBall_below:
  assumes "length (balls g) < 100"
  shows "length (balls (addRandomBall g)) = Suc (length (balls g)) \<and>
         isGameOver (addRandomBall g) = isGameOver g \<and>
         addBtn_disabled (addRandomBall g) = addBtn_disabled g \<and>
         clearBtn_disabled (addRandomBall g) = clearBtn_disabled g \<and>
         gameOverBox_hidden (addRandomBall g) = gameOverBox_hidden g"
  using spawn_admitted [of AddBtn_click g] spawn_admitted_length [of AddBtn_click g] assms
  by simp

lemma funpow_addRandomBall:
  assumes "length (balls g) + k \<le> 100"
  shows "length (balls ((addRandomBall ^^ k) g)) = length (balls g) + k \<and>
         isGameOver ((addRandomBall ^^ k) g) = isGameOver g \<and>
         addBtn_disabled ((addRandomBall ^^ k) g) = addBtn_disabled g \<and>
         clearBtn_disabled ((addRandomBall ^^ k) g) = clearBtn_disabled g \<and>
         gameOverBox_hidden ((addRandomBall ^^ k) g) = gameOverBox_hidden g"
  using assms
proof (induction k)
  case 0
  show ?case by simp
next
  case (Suc k)
  then have below: "length (balls ((addRandomBall ^^ k) g)) < 100" by simp
  from Suc addRandomBall_below [OF below] show ?case by simp
qed

lemma run_append: "run (es @ fs) g = run fs (run es g)"
  by (induction es arbitrary: g) simp_all

lemma run_adds:
  assumes "length (balls g) + k \<le> 100"
  shows "length (balls (run (replicate k AddBtn_click) g)) = length (balls g) + k \<and>
         isGameOver (run (replicate k AddBtn_click) g) = isGameOver g"
  using assms
proof (induction k arbitrary: g)
  case 0
  show ?case by simp
next
  case (Suc k)
  then have below: "length (balls g) < 100" by simp
  from addRandomBall_below [OF below] Suc.prems
  have "length (balls (addRandomBall g)) + k \<le> 100" by simp
  from Suc.IH [OF this] addRandomBall_below [OF below] show ?case by simp
qed

lemma new_Game_fields:
  "length (balls (new_Game c l t ad cd hid rnd)) = 20 \<and>
   \<not> isGameOver (new_Game c l t ad cd hid rnd) \<and>
   clearBtn_disabled (new_Game c l t ad cd hid rnd) = cd"
proof -
  let ?g0 = "\<lparr>canvas = c, rect_left = l, rect_top = t, balls = [], isGameOver = False,
              addBtn_disabled = ad, clearBtn_disabled = cd, gameOverBox_hidden = hid,
              random = rnd, draws = 0\<rparr>"
  have "length (balls ?g0) + 20 \<le> 100" by simp
  from funpow_addRandomBall [OF this] loop_fields [of "(addRandomBall ^^ 20) ?g0"]
  show ?thesis by (simp add: new_Game_def Let_def)
qed

lemma restartGame_fields:
  "length (balls (restartGame g)) = 20 \<and> \<not> isGameOver (restartGame g) \<and>
   \<not> addBtn_disabled (restartGame g) \<and> \<not> clearBtn_disabled (restartGame g) \<and>
   gameOverBox_hidden (restartGame g)"
proof -
  let ?g5 = "g\<lparr>balls := [], addBtn_disabled := False, clearBtn_disabled := False,
               gameOverBox_hidden := True, isGameOver := False\<rparr>"
  have r: "restartGame g = (addRandomBall ^^ 20) ?g5"
    by (simp add: restartGame_def enableButtons_def Let_def)
  have "length (balls ?g5) + 20 \<le> 100" by simp
  from funpow_addRandomBall [OF this] show ?thesis by (simp add: r)
qed

lemma restartGame_forgets: "restartGame (g\<lparr>balls := bs\<rparr>) = restartGame g"
  by (simp add: restartGame_def enableButtons_def Let_def)

subsection \<open>The invariant of a session\<close>

lemma session_inv_step:
  assumes "session_inv g"
  shows "session_inv (step e g)"
proof (cases "is_spawn e")
  case True
  show ?thesis
  proof (cases "100 \<le> length (balls g) \<and> \<not> isGameOver g")
    case True
    with spawn_rejected [OF \<open>is_spawn e\<close>] show ?thesis
      by (simp add: session_inv_def)
  next
    case False
    then have adm: "length (balls g) < 100 \<or> isGameOver g" by auto
    have len: "length (balls (step e g)) = Suc (length (balls g))"
      by (rule spawn_admitted_length [OF True adm])
    have over: "isGameOver (step e g) = isGameOver g"
      and dis: "clearBtn_disabled (step e g) = clearBtn_disabled g"
      using spawn_admitted [OF True adm] by simp_all
    show ?thesis
    proof (cases "isGameOver g")
      case True
      with assms len over dis show ?thesis by (simp add: session_inv_def)
    next
      case playing: False
      with False have "length (balls g) < 100" by simp
      with playing len over show ?thesis by (simp add: session_inv_def)
    qed
  qed
next
  case False
  then show ?thesis
  proof (cases e)
    case ClearBtn_click
    with assms show ?thesis
      by (auto simp add: session_inv_def clearBalls_def split: if_splits)
  next
    case RestartBtn_click
    with restartGame_fields [of g] show ?thesis
      by (simp add: session_inv_def)
  next
    case (Canvas_touchstart ts)
    with False have "ts = []" by (cases ts) auto
    with Canvas_touchstart assms show ?thesis by simp
  next
    case Frame
    with assms loop_fields [of g] show ?thesis
      by (simp add: session_inv_def)
  next
    case (Layout w h l t)
    with assms show ?thesis by (simp add: session_inv_def)
  next
    case Resize_timeout
    with assms show ?thesis by (simp add: session_inv_def)
  qed simp_all
qed

lemma session_inv_run: "session_inv g \<Longrightarrow> session_inv (run es g)"
  by (induction es arbitrary: g) (simp_all add: session_inv_step)

lemma session_inv_new_Game: "session_inv (new_Game c l t ad cd hid rnd)"
  using new_Game_fields [of c l t ad cd hid rnd] by (simp add: session_inv_def)

subsection \<open>The concrete sessions\<close>

lemma game_100_fields: "length (balls game_100) = 100 \<and> \<not> isGameOver game_100"
  using new_Game_fields [of canvas_400_300 0 0 False False True zero_rnd]
    run_adds [of game_start 80]
  by (simp add: game_100_def game_start_def)

lemma game_99_fields: "length (balls game_99) = 99 \<and> \<not> isGameOver game_99"
  using new_Game_fields [of canvas_400_300 0 0 False False True zero_rnd]
    run_adds [of game_start 79]
  by (simp add: game_99_def game_start_def)


lemma game_over_fields: "length (balls game_over) = 100 \<and> isGameOver game_over"
proof -
  have "replicate 81 AddBtn_click = replicate 80 AddBtn_click @ [AddBtn_click]"
    using replicate_add [of 80 1 AddBtn_click] by simp
  then have "game_over = step AddBtn_click game_100"
    by (simp add: game_over_def game_100_def run_append)
  also have "\<dots> = game_100\<lparr>isGameOver := True, addBtn_disabled := True,
                 clearBtn_disabled := True, gameOverBox_hidden := False\<rparr>"
    using game_100_fields by (intro spawn_rejected) simp_all
  finally have eq: "game_over = game_100\<lparr>isGameOver := True, addBtn_disabled := True,
                 clearBtn_disabled := True, gameOverBox_hidden := False\<rparr>" .
  have "balls game_over = balls game_100" and "isGameOver game_over"
    unfolding eq by simp_all
  with game_100_fields show ?thesis by simp
qed

lemma game_start_fields: "length (balls game_start) = 20 \<and> \<not> isGameOver game_start"
  using new_Game_fields [of canvas_400_300 0 0 False False True zero_rnd]
  by (simp add: game_start_def)

subsection \<open>The threshold of 100 balls\<close>

text \<open>
  Claim C1, as the code has it. In every state that a session reaches from a fresh game:
  while the game is not over there are at most 100 balls, and once it is over there are at
  least 100. The game is not over merely because the count has reached 100: it is the
  next request for a ball (the add button, a click or a touch on the canvas), made with
  100 balls while the game is not over, that is refused without adding a ball and sets
  the flag. A request made with fewer than 100 balls while the game is not over adds
  exactly one ball and leaves the flag unset.
\<close>

theorem session_cap:
  "(\<not> isGameOver (run es (new_Game c l t ad cd hid rnd)) \<longrightarrow>
      length (balls (run es (new_Game c l t ad cd hid rnd))) \<le> 100) \<and>
   (isGameOver (run es (new_Game c l t ad cd hid rnd)) \<longrightarrow>
      100 \<le> length (balls (run es (new_Game c l t ad cd hid rnd)))) \<and>
   (is_spawn e \<and> \<not> isGameOver (run es (new_Game c l t ad cd hid rnd)) \<and>
    length (balls (run es (new_Game c l t ad cd hid rnd))) = 100 \<longrightarrow>
      balls (step e (run es (new_Game c l t ad cd hid rnd)))
        = balls (run es (new_Game c l t ad cd hid rnd)) \<and>
      isGameOver (step e (run es (new_Game c l t ad cd hid rnd)))) \<and>
   (is_spawn e \<and> \<not> isGameOver (run es (new_Game c l t ad cd hid rnd)) \<and>
    length (balls (run es (new_Game c l t ad cd hid rnd))) < 100 \<longrightarrow>
      length (balls (step e (run es (new_Game c l t ad cd hid rnd))))
        = length (balls (run es (new_Game c l t ad cd hid rnd))) + 1 \<and>
      \<not> isGameOver (step e (run es (new_Game c l t ad cd hid rnd))))"
proof -
  let ?g = "run es (new_Game c l t ad cd hid rnd)"
  have inv: "session_inv ?g"
    by (rule session_inv_run) (rule session_inv_new_Game)
  have cap: "length (balls ?g) \<le> 100" if "\<not> isGameOver ?g"
    using inv that by (simp add: session_inv_def)
  have floor: "100 \<le> length (balls ?g)" if "isGameOver ?g"
    using inv that by (simp add: session_inv_def)
  have rej: "balls (step e ?g) = balls ?g \<and> isGameOver (step e ?g)"
    if "is_spawn e" "\<not> isGameOver ?g" "length (balls ?g) = 100"
    using spawn_rejected [of e ?g] that by simp
  have adm: "length (balls (step e ?g)) = length (balls ?g) + 1 \<and> \<not> isGameOver (step e ?g)"
    if "is_spawn e" "\<not> isGameOver ?g" "length (balls ?g) < 100"
    using spawn_admitted [of e ?g] spawn_admitted_length [of e ?g] that by simp
  from cap floor rej adm show ?thesis by blast
qed

theorem session_cap_witness:
  "\<not> isGameOver game_100 \<and> length (balls game_100) \<le> 100 \<and>
   is_spawn (Canvas_click 5 5) \<and> length (balls game_100) = 100 \<and>
   balls (step (Canvas_click 5 5) game_100) = balls game_100 \<and>
   isGameOver (step (Canvas_click 5 5) game_100) \<and>
   isGameOver game_over \<and> 100 \<le> length (balls game_over) \<and>
   is_spawn AddBtn_click \<and> \<not> isGameOver game_start \<and> length (balls game_start) < 100 \<and>
   length (balls (step AddBtn_click game_start)) = length (balls game_start) + 1 \<and>
   \<not> isGameOver (step AddBtn_click game_start)"
  using
    session_cap [of "replicate 80 AddBtn_click" canvas_400_300 0 0 False False True zero_rnd
      "Canvas_click 5 5", folded game_start_def, folded game_100_def]
    session_cap [of "replicate 81 AddBtn_click" canvas_400_300 0 0 False False True zero_rnd
      "Canvas_click 5 5", folded game_start_def, folded game_over_def]
    session_cap [of "[]" canvas_400_300 0 0 False False True zero_rnd
      AddBtn_click, folded game_start_def]
    game_100_fields game_over_fields game_start_fields
  by simp

text \<open>
  The claim as the specification words it fails: after 80 presses of the add button on a
  fresh game there are 100 balls and the game is not over.
\<close>

theorem over_at_100_counterexample:
  "game_100 = run (replicate 80 AddBtn_click)
                (new_Game canvas_400_300 0 0 False False True zero_rnd) \<and>
   length (balls game_100) = 100 \<and> \<not> isGameOver game_100"
  using game_100_fields by (simp add: game_100_def game_start_def)

text \<open>
  Claim C2, as the code has it. The test for the end of the game is made at the start of
  every request for a ball, before the ball is created. From 99 balls with the game not
  over, one request adds the hundredth ball and the game is still not over; the request
  after that is refused, leaves the count at 100 and ends the game.
\<close>

theorem threshold_transition:
  assumes "\<not> isGameOver g" and "length (balls g) = 99"
    and "is_spawn e1" and "is_spawn e2"
  shows "length (balls (step e1 g)) = 100 \<and> \<not> isGameOver (step e1 g) \<and>
         balls (step e2 (step e1 g)) = balls (step e1 g) \<and>
         length (balls (step e2 (step e1 g))) = 100 \<and>
         isGameOver (step e2 (step e1 g))"
proof -
  from assms(2) have below: "length (balls g) < 100 \<or> isGameOver g" by simp
  from spawn_admitted [OF assms(3) below] spawn_admitted_length [OF assms(3) below] assms(1,2)
  have first: "length (balls (step e1 g)) = 100 \<and> \<not> isGameOver (step e1 g)" by simp
  with spawn_rejected [of e2 "step e1 g"] assms(4) show ?thesis by simp
qed

theorem threshold_transition_witness:
  "\<not> isGameOver game_99 \<and> length (balls game_99) = 99 \<and>
   is_spawn AddBtn_click \<and> is_spawn (Canvas_touchstart [(5, 5)]) \<and>
   length (balls (step AddBtn_click game_99)) = 100 \<and>
   \<not> isGameOver (step AddBtn_click game_99) \<and>
   length (balls (step (Canvas_touchstart [(5, 5)]) (step AddBtn_click game_99))) = 100 \<and>
   isGameOver (step (Canvas_touchstart [(5, 5)]) (step AddBtn_click game_99))"
proof -
  have p: "\<not> isGameOver game_99" and n: "length (balls game_99) = 99"
    using game_99_fields by simp_all
  have s1: "is_spawn AddBtn_click" and s2: "is_spawn (Canvas_touchstart [(5, 5)])"
    by simp_all
  from threshold_transition [OF p n s1 s2] p n s1 s2 show ?thesis by simp
qed

text \<open>
  The claim as the specification words it fails: the request that brings the count from
  99 to 100 does not end the game.
\<close>

theorem hundredth_spawn_counterexample:
  "\<not> isGameOver game_99 \<and> length (balls game_99) = 99 \<and>
   length (balls (addRandomBall game_99)) = 100 \<and> \<not> isGameOver (addRandomBall game_99)"
  using game_99_fields addRandomBall_below [of game_99] by simp

subsection \<open>Restart\<close>

lemma restartGame_any_phase: "restartGame (g\<lparr>isGameOver := b\<rparr>) = restartGame g"
  by (simp add: restartGame_def enableButtons_def Let_def)

text \<open>
  Claim C6. \<open>restartGame\<close> called while the game is over leaves exactly 20 balls and
  the game not over. None of the old balls survives: the result is the same as from the
  state with an empty array. The two buttons are enabled again and the game-over box is
  hidden.
\<close>

theorem restart_from_Over:
  assumes "isGameOver g"
  shows "length (balls (restartGame g)) = 20 \<and> \<not> isGameOver (restartGame g) \<and>
         restartGame g = restartGame (g\<lparr>balls := []\<rparr>) \<and>
         \<not> addBtn_disabled (restartGame g) \<and> \<not> clearBtn_disabled (restartGame g) \<and>
         gameOverBox_hidden (restartGame g)"
  using restartGame_fields [of g] restartGame_forgets [where g = g and bs = "[]"] by simp

theorem restart_from_Over_witness:
  "isGameOver game_over \<and> length (balls game_over) = 100 \<and>
   length (balls (restartGame game_over)) = 20 \<and> \<not> isGameOver (restartGame game_over)"
proof -
  have over: "isGameOver game_over" using game_over_fields by simp
  from restart_from_Over [OF over] game_over_fields show ?thesis by blast
qed

text \<open>
  Claim C10. \<open>restartGame\<close> does not look at the phase. Called while the game is not
  over it also leaves exactly 20 balls and the game not over, whatever balls there were
  before, and its result is the one it would give had the game been over.
\<close>

theorem restart_from_Playing:
  assumes "\<not> isGameOver g"
  shows "length (balls (restartGame g)) = 20 \<and> \<not> isGameOver (restartGame g) \<and>
         restartGame g = restartGame (g\<lparr>balls := []\<rparr>) \<and>
         restartGame g = restartGame (g\<lparr>isGameOver := True\<rparr>)"
  using restartGame_fields [of g] restartGame_forgets [where g = g and bs = "[]"]
    restartGame_any_phase [where g = g and b = True]
  by simp

theorem restart_from_Playing_witness:
  "\<not> isGameOver game_99 \<and> length (balls game_99) = 99 \<and>
   length (balls (restartGame game_99)) = 20 \<and> \<not> isGameOver (restartGame game_99)"
proof -
  have playing: "\<not> isGameOver game_99" using game_99_fields by simp
  from restart_from_Playing [OF playing] game_99_fields show ?thesis by blast
qed

subsection \<open>Frames while the game is over\<close>

text \<open>
  Claim C7. A frame that runs while the game is over leaves the whole state, and so the
  position and velocity of every ball, as it was. The calls it makes are \<open>clearRect\<close>
  followed by one \<open>draw()\<close> for every ball, in the order of the array; \<open>update()\<close>
  is called on no ball.
\<close>

theorem frame_while_Over:
  assumes "isGameOver g"
  shows "fst (loop g) = g \<and>
         snd (loop g) =
           ClearRect_call (clientWidth (canvas g)) (clientHeight (canvas g)) #
           map (\<lambda>(i, e). draw i e) (enumerate 0 (balls g)) \<and>
         (\<forall>i. Update_call i \<notin> set (snd (loop g)))"
proof -
  have lf: "loop_from (canvas g) (isGameOver g) 0 (balls g) =
              (balls g, map (\<lambda>(j, e). draw j e) (enumerate 0 (balls g)))"
    using assms by (simp add: loop_from_over)
  have st: "fst (loop g) = g"
    by (simp add: loop_def lf)
  have calls: "snd (loop g) =
           ClearRect_call (clientWidth (canvas g)) (clientHeight (canvas g)) #
           map (\<lambda>(i, e). draw i e) (enumerate 0 (balls g))"
    by (simp add: loop_def lf)
  have "Update_call i \<notin> set (snd (loop g))" for i
    unfolding calls by (auto simp add: draw_def)
  with st calls show ?thesis by blast
qed

theorem frame_while_Over_witness:
  "isGameOver game_over \<and> fst (loop game_over) = game_over \<and>
   step Frame game_over = game_over \<and>
   length (snd (loop game_over)) = 101 \<and>
   (\<forall>i. Update_call i \<notin> set (snd (loop game_over)))"
proof -
  have over: "isGameOver game_over" using game_over_fields by simp
  note f = frame_while_Over [OF over]
  from f have same: "fst (loop game_over) = game_over" by blast
  from f have calls: "snd (loop game_over) =
      ClearRect_call (clientWidth (canvas game_over)) (clientHeight (canvas game_over)) #
      map (\<lambda>(i, e). draw i e) (enumerate 0 (balls game_over))" by blast
  from f have none: "\<forall>i. Update_call i \<notin> set (snd (loop game_over))" by blast
  have frame: "step Frame game_over = game_over" by (simp add: same)
  have count: "length (snd (loop game_over)) = 101"
    unfolding calls using game_over_fields by simp
  from over same frame count none show ?thesis by blast
qed

subsection \<open>Acceleration\<close>

lemma accel_step:
  assumes "e \<noteq> ClearBtn_click" and "e \<noteq> RestartBtn_click"
  shows "map accel (take (length (balls g)) (balls (step e g))) = map accel (balls g)"
proof (cases "is_spawn e")
  case True
  show ?thesis
  proof (cases "100 \<le> length (balls g) \<and> \<not> isGameOver g")
    case True
    with spawn_rejected [OF \<open>is_spawn e\<close>, of g] show ?thesis by simp
  next
    case False
    then have adm: "length (balls g) < 100 \<or> isGameOver g" by auto
    from spawn_admitted [OF True adm]
    have "balls (step e g) = balls g @ [last (balls (step e g))]" by simp
    then have "take (length (balls g)) (balls (step e g)) =
               take (length (balls g)) (balls g @ [last (balls (step e g))])"
      by simp
    then show ?thesis by simp
  qed
next
  case False
  then show ?thesis
  proof (cases e)
    case (Canvas_touchstart ts)
    with False have "ts = []" by (cases ts) auto
    with Canvas_touchstart show ?thesis by simp
  next
    case Frame
    have "length (fst (loop_from (canvas g) (isGameOver g) 0 (balls g))) = length (balls g)"
      by (rule loop_from_length)
    with Frame show ?thesis
      by (simp add: loop_def case_prod_beta loop_from_accel take_map [symmetric])
  next
    case Resize_timeout
    then show ?thesis by (simp add: accel_clampToBounds)
  qed (use assms in simp_all)
qed

text \<open>
  Claim C9. When every value of the random source lies in \<open>[0, 1)\<close>, both components
  of the acceleration of a new \<open>MovingBall\<close> lie in \<open>[-0.01, 0.01)\<close>. No method
  changes them afterwards: neither \<open>update\<close> nor \<open>clampToBounds\<close>, and no event of
  a session other than the two that discard the balls (clear and restart) changes the
  acceleration of a ball already in the array.
\<close>

theorem acceleration_fixed:
  assumes "\<forall>n. 0 \<le> rnd n \<and> rnd n < 1"
  shows "- 0.01 \<le> ax (fst (new_MovingBall c xo yo rnd n)) \<and>
         ax (fst (new_MovingBall c xo yo rnd n)) < 0.01 \<and>
         - 0.01 \<le> ay (fst (new_MovingBall c xo yo rnd n)) \<and>
         ay (fst (new_MovingBall c xo yo rnd n)) < 0.01 \<and>
         ax (MovingBall_update c' m) = ax m \<and> ay (MovingBall_update c' m) = ay m \<and>
         ax (Ball_clampToBounds c' m) = ax m \<and> ay (Ball_clampToBounds c' m) = ay m \<and>
         accel (update c' e) = accel e \<and> accel (clampToBounds c' e) = accel e \<and>
         (ev \<noteq> ClearBtn_click \<and> ev \<noteq> RestartBtn_click \<longrightarrow>
            map accel (take (length (balls g)) (balls (step ev g))) = map accel (balls g))"
proof -
  let ?k = "snd (new_Ball c xo yo rnd n)"
  have axv: "ax (fst (new_MovingBall c xo yo rnd n)) = (rnd ?k - 0.5) * 0.02"
    and ayv: "ay (fst (new_MovingBall c xo yo rnd n)) = (rnd (Suc ?k) - 0.5) * 0.02"
    by (simp_all add: new_MovingBall_def Math_random_def Let_def case_prod_beta)
  from assms have "0 \<le> rnd ?k \<and> rnd ?k < 1" and "0 \<le> rnd (Suc ?k) \<and> rnd (Suc ?k) < 1"
    by blast+
  then have range: "- 0.01 \<le> ax (fst (new_MovingBall c xo yo rnd n)) \<and>
         ax (fst (new_MovingBall c xo yo rnd n)) < 0.01 \<and>
         - 0.01 \<le> ay (fst (new_MovingBall c xo yo rnd n)) \<and>
         ay (fst (new_MovingBall c xo yo rnd n)) < 0.01"
    unfolding axv ayv by simp
  have meth: "ax (MovingBall_update c' m) = ax m \<and> ay (MovingBall_update c' m) = ay m \<and>
         ax (Ball_clampToBounds c' m) = ax m \<and> ay (Ball_clampToBounds c' m) = ay m"
    by (simp add: MovingBall_update_def Ball_update_def Ball_clampToBounds_def Let_def)
  from range meth accel_update [of c' e] accel_clampToBounds [of c' e] accel_step [of ev g]
  show ?thesis by simp
qed

theorem acceleration_fixed_witness:
  "(\<forall>n. 0 \<le> zero_rnd n \<and> zero_rnd n < 1) \<and>
   ax (fst (new_MovingBall canvas_400_300 None None zero_rnd 0)) = - 0.01 \<and>
   ay (fst (new_MovingBall canvas_400_300 None None zero_rnd 0)) < 0.01 \<and>
   Frame \<noteq> ClearBtn_click \<and> Frame \<noteq> RestartBtn_click \<and>
   map accel (take (length (balls game_start)) (balls (step Frame game_start)))
     = map accel (balls game_start)"
proof -
  have r: "\<forall>n. 0 \<le> zero_rnd n \<and> zero_rnd n < 1"
    by (simp add: zero_rnd_def)
  have v: "ax (fst (new_MovingBall canvas_400_300 None None zero_rnd 0)) = - 0.01"
    by (simp add: new_MovingBall_def Math_random_def Let_def case_prod_beta zero_rnd_def)
  from acceleration_fixed [OF r, of canvas_400_300 None None 0 _ _ _ Frame game_start] r v
  show ?thesis by simp
qed

end
